theory Spec2Isabelle
  imports Main "HOL-Library.Char_ord" "HOL-Library.List_Lexorder" "HOL-Library.Multiset"
begin

section \<open>Python values\<close>

text \<open>
  The client decodes every inbound frame with \<^verbatim>\<open>json.loads\<close> and works on the decoded
  Python value. \<open>pyval\<close> is the universe of those values: \<^verbatim>\<open>None\<close>, booleans, integers,
  strings, lists and dictionaries with string keys (a JSON object). A dictionary is an association
  list in insertion order with one entry per key, as a Python \<^verbatim>\<open>dict\<close> has. Floating-point
  numbers are outside the model, and strings are lists of 8-bit characters (code points up to 255).

  An exception is a value: a function that can raise returns \<open>py_error + 'a\<close>.
\<close>

datatype pyval =
    PNone
  | PBool bool
  | PInt int
  | PStr string
  | PList "pyval list"
  | PDict "(string \<times> pyval) list"

type_synonym pydict = "(string \<times> pyval) list"

datatype py_error = TypeError | AttributeError

text \<open>
  Truth value testing (\<^verbatim>\<open>if v\<close>, \<^verbatim>\<open>not v\<close>) and \<^verbatim>\<open>a or b\<close>, which yields \<^verbatim>\<open>a\<close> when
  it is true and \<^verbatim>\<open>b\<close> otherwise.
\<close>

fun truthy :: "pyval \<Rightarrow> bool" where
  "truthy PNone = False"
| "truthy (PBool b) = b"
| "truthy (PInt i) = (i \<noteq> 0)"
| "truthy (PStr s) = (s \<noteq> [])"
| "truthy (PList xs) = (xs \<noteq> [])"
| "truthy (PDict kvs) = (kvs \<noteq> [])"

definition py_or :: "pyval \<Rightarrow> pyval \<Rightarrow> pyval" where
  "py_or a b = (if truthy a then a else b)"

text \<open>\<^verbatim>\<open>sep.join(ts)\<close>.\<close>

fun join :: "string \<Rightarrow> string list \<Rightarrow> string" where
  "join sep [] = []"
| "join sep [t] = t"
| "join sep (t # u # ts) = t @ sep @ join sep (u # ts)"

text \<open>
  \<^verbatim>\<open>str\<close> and \<^verbatim>\<open>repr\<close>. An integer prints in decimal. A string's \<^verbatim>\<open>repr\<close> is quoted with
  \<^verbatim>\<open>'\<close>, or with \<^verbatim>\<open>"\<close> when the string holds a \<^verbatim>\<open>'\<close> and no \<^verbatim>\<open>"\<close>; the quote and
  the backslash are escaped, tab, newline and carriage return print as \<^verbatim>\<open>\t\<close>, \<^verbatim>\<open>\n\<close>,
  \<^verbatim>\<open>\r\<close>, and the other characters that are not printable (below 32, 127, 128 to 160, 173)
  print as \<^verbatim>\<open>\xhh\<close>. A list prints as \<^verbatim>\<open>[a, b]\<close> and a dictionary as
  \<^verbatim>\<open>{'k': v, 'l': w}\<close>, with the \<^verbatim>\<open>repr\<close> of their parts. \<^verbatim>\<open>str\<close> of a string is the
  string itself, and \<^verbatim>\<open>str\<close> of any other value is its \<^verbatim>\<open>repr\<close>.
\<close>

definition hex_digit :: "nat \<Rightarrow> char" where
  "hex_digit n = ''0123456789abcdef'' ! (n mod 16)"

fun str_nat :: "nat \<Rightarrow> string" where
  "str_nat n = (if n < 10 then [hex_digit n] else str_nat (n div 10) @ [hex_digit (n mod 10)])"

definition str_int :: "int \<Rightarrow> string" where
  "str_int i = (if i < 0 then CHR ''-'' # str_nat (nat (- i)) else str_nat (nat i))"

definition repr_quote :: "string \<Rightarrow> char" where
  "repr_quote s = (if CHR 0x27 \<in> set s \<and> CHR 0x22 \<notin> set s then CHR 0x22 else CHR 0x27)"

definition repr_char :: "char \<Rightarrow> char \<Rightarrow> string" where
  "repr_char q c =
     (let n = (of_char c :: nat) in
      if c = q \<or> c = CHR 0x5C then [CHR 0x5C, c]
      else if c = CHR 0x09 then [CHR 0x5C, CHR ''t'']
      else if c = CHR 0x0A then [CHR 0x5C, CHR ''n'']
      else if c = CHR 0x0D then [CHR 0x5C, CHR ''r'']
      else if n < 32 \<or> n = 127 \<or> (128 \<le> n \<and> n \<le> 160) \<or> n = 173
        then [CHR 0x5C, CHR ''x'', hex_digit (n div 16), hex_digit (n mod 16)]
      else [c])"

definition repr_str :: "string \<Rightarrow> string" where
  "repr_str s = (let q = repr_quote s in q # concat (map (repr_char q) s) @ [q])"

fun py_repr :: "pyval \<Rightarrow> string" where
  "py_repr PNone = ''None''"
| "py_repr (PBool b) = (if b then ''True'' else ''False'')"
| "py_repr (PInt i) = str_int i"
| "py_repr (PStr s) = repr_str s"
| "py_repr (PList xs) = ''['' @ join '', '' (map py_repr xs) @ '']''"
| "py_repr (PDict kvs) =
     ''{'' @ join '', '' (map (\<lambda>kv. repr_str (fst kv) @ '': '' @ py_repr (snd kv)) kvs) @ ''}''"

fun py_str :: "pyval \<Rightarrow> string" where
  "py_str (PStr s) = s"
| "py_str v = py_repr v"

subsection \<open>Dictionary access and membership\<close>

text \<open>
  \<^verbatim>\<open>d.get(k, dflt)\<close> and \<^verbatim>\<open>d.get(k)\<close>: the value stored under the key when the key is
  present (whatever the value, \<^verbatim>\<open>None\<close> included), the default otherwise.
\<close>

definition get_or :: "pydict \<Rightarrow> string \<Rightarrow> pyval \<Rightarrow> pyval" where
  "get_or d k dflt = (case map_of d k of Some v \<Rightarrow> v | None \<Rightarrow> dflt)"

definition get :: "pydict \<Rightarrow> string \<Rightarrow> pyval" where
  "get d k = get_or d k PNone"

text \<open>
  \<^verbatim>\<open>k in data\<close> for a string \<open>k\<close>: a key of a dictionary, an element of a list, a substring
  of a string; on \<^verbatim>\<open>None\<close>, a boolean or an integer the test raises \<^verbatim>\<open>TypeError\<close>.
  \<open>any_in ks data\<close> is \<^verbatim>\<open>any(key in data for key in ks)\<close>.
\<close>

fun starts_with :: "string \<Rightarrow> string \<Rightarrow> bool" where
  "starts_with [] s = True"
| "starts_with (p # ps) [] = False"
| "starts_with (p # ps) (c # cs) = (p = c \<and> starts_with ps cs)"

fun substring :: "string \<Rightarrow> string \<Rightarrow> bool" where
  "substring p [] = (p = [])"
| "substring p (c # cs) = (starts_with p (c # cs) \<or> substring p cs)"

fun py_in :: "string \<Rightarrow> pyval \<Rightarrow> py_error + bool" where
  "py_in k (PDict d) = Inr (map_of d k \<noteq> None)"
| "py_in k (PList xs) = Inr (List.member xs (PStr k))"
| "py_in k (PStr s) = Inr (substring k s)"
| "py_in k v = Inl TypeError"

fun any_in :: "string list \<Rightarrow> pyval \<Rightarrow> py_error + bool" where
  "any_in [] data = Inr False"
| "any_in (k # ks) data =
     (case py_in k data of
        Inl e \<Rightarrow> Inl e
      | Inr True \<Rightarrow> Inr True
      | Inr False \<Rightarrow> any_in ks data)"

text \<open>
  \<^verbatim>\<open>is_fragmented_message\<close> (utils.py, lines 131 to 153). The caller passes whatever
  \<^verbatim>\<open>json.loads\<close> returned, so the argument is any value.
\<close>

definition fragment_keys :: "string list" where
  "fragment_keys = [''fragment'', ''sequence'', ''part'', ''chunk'', ''index'']"

definition total_keys :: "string list" where
  "total_keys = [''total'', ''total_fragments'', ''total_parts'', ''count'']"

definition is_fragmented_message :: "pyval \<Rightarrow> py_error + bool" where
  "is_fragmented_message data =
     (case any_in fragment_keys data of Inl e \<Rightarrow> Inl e | Inr has_fragment_indicator \<Rightarrow>
     (case any_in total_keys data of Inl e \<Rightarrow> Inl e | Inr has_total_indicator \<Rightarrow>
     (case py_in ''timestamp'' data of Inl e \<Rightarrow> Inl e | Inr has_timestamp \<Rightarrow>
     (case any_in [''id'', ''message_id''] data of Inl e \<Rightarrow> Inl e | Inr has_id \<Rightarrow>
        Inr (has_fragment_indicator \<or> has_total_indicator \<or> (has_timestamp \<and> has_id))))))"

subsection \<open>The library functions the client calls\<close>

text \<open>
  Three functions are not code of the repository and are parameters of the model:
  \<^item> \<open>json_loads\<close> is \<^verbatim>\<open>json.loads\<close> on a string; \<open>None\<close> stands for
    \<^verbatim>\<open>JSONDecodeError\<close>.
  \<^item> \<open>query_llm\<close> is \<^verbatim>\<open>OllamaAgent.query_llm\<close>, the HTTP request to the backend: the
    stripped response text, or \<open>None\<close> when the request fails.
  \<^item> \<open>sorted_list_keys\<close> is what \<^verbatim>\<open>sorted\<close> does with two fragments or more whose sort
    keys are all lists (see \<open>py_sorted\<close>).
\<close>

record env =
  json_loads :: "string \<Rightarrow> pyval option"
  sorted_list_keys :: "pydict list \<Rightarrow> py_error + pydict list"
  query_llm :: "pyval \<Rightarrow> string option"

text \<open>
  \<^verbatim>\<open>sorted(xs, key=key)\<close> is a stable sort that compares keys with \<^verbatim>\<open><\<close>. Integers and
  booleans compare as integers and strings compare lexicographically by code point; every other
  pair of the value types raises \<^verbatim>\<open>TypeError\<close>, except two lists, whose comparison depends on
  their elements. A list of at most one element is returned without a comparison. With two
  elements or more, every element is compared with another one and the comparisons made link all
  elements, so the call raises as soon as the keys are neither all integers, nor all strings, nor
  all lists. For keys that are all lists the result is the parameter \<open>sorted_list_keys\<close>.
\<close>

fun int_key :: "pyval \<Rightarrow> int option" where
  "int_key (PInt i) = Some i"
| "int_key (PBool b) = Some (if b then 1 else 0)"
| "int_key v = None"

fun str_key :: "pyval \<Rightarrow> string option" where
  "str_key (PStr s) = Some s"
| "str_key v = None"

fun is_list :: "pyval \<Rightarrow> bool" where
  "is_list (PList xs) = True"
| "is_list v = False"

definition int_of :: "pyval \<Rightarrow> int" where
  "int_of v = (case int_key v of Some i \<Rightarrow> i | None \<Rightarrow> 0)"

definition str_of :: "pyval \<Rightarrow> string" where
  "str_of v = (case str_key v of Some s \<Rightarrow> s | None \<Rightarrow> [])"

definition py_sorted :: "env \<Rightarrow> (pydict \<Rightarrow> pyval) \<Rightarrow> pydict list \<Rightarrow> py_error + pydict list" where
  "py_sorted E key xs =
     (if length xs \<le> 1 then Inr xs
      else if list_all (\<lambda>x. int_key (key x) \<noteq> None) xs then Inr (sort_key (\<lambda>x. int_of (key x)) xs)
      else if list_all (\<lambda>x. str_key (key x) \<noteq> None) xs then Inr (sort_key (\<lambda>x. str_of (key x)) xs)
      else if list_all (\<lambda>x. is_list (key x)) xs then sorted_list_keys E xs
      else Inl TypeError)"

subsection \<open>The client: fragment reconstruction\<close>

text \<open>
  The state of a \<^verbatim>\<open>WebSocketClient\<close>: the two configuration flags, the dictionary
  \<^verbatim>\<open>fragments\<close> from group key to the list of accumulated records, and \<^verbatim>\<open>message_buffer\<close>.

  \<open>reconstruct_fragments\<close> is client.py, lines 39 to 75: \<open>sequence_key\<close> is the sort key of
  line 55, \<open>fragment_text\<close> the expression of lines 62 to 66 and \<open>collect_texts\<close> the loop
  of lines 59 to 68.
\<close>

record client =
  auto_mode :: bool
  enable_fragments :: bool
  fragments :: "pyval \<rightharpoonup> pydict list"
  message_buffer :: "pyval list"

definition sequence_key :: "pydict \<Rightarrow> pyval" where
  "sequence_key x = get_or x ''sequence'' (get_or x ''timestamp'' (get_or x ''index'' (PInt 0)))"

definition fragment_text :: "pydict \<Rightarrow> pyval" where
  "fragment_text frag =
     py_or (get frag ''text'')
       (py_or (get frag ''content'')
         (py_or (get frag ''message'')
           (py_or (get frag ''data'') (PStr (py_str (PDict frag))))))"

fun collect_texts :: "pydict list \<Rightarrow> string list" where
  "collect_texts [] = []"
| "collect_texts (frag # frags) =
     (let text = fragment_text frag
      in if truthy text then py_str text # collect_texts frags else collect_texts frags)"

definition reconstruct_fragments :: "env \<Rightarrow> pydict list \<Rightarrow> py_error + pyval" where
  "reconstruct_fragments E frags =
     (if frags = [] then Inr PNone
      else (case py_sorted E sequence_key frags of
              Inl e \<Rightarrow> Inl e
            | Inr sorted_fragments \<Rightarrow>
                (let texts = collect_texts sorted_fragments
                 in if texts \<noteq> [] then Inr (PStr (join '' '' texts)) else Inr PNone)))"

subsection \<open>The client: one inbound frame\<close>

text \<open>
  \<open>handle_message\<close> is client.py, lines 77 to 131; \<open>handle_fragment\<close> is the body of the
  \<^verbatim>\<open>if\<close> of lines 101 to 121, entered with a dictionary, and \<open>message_content\<close> is lines
  123 to 131. A function returns its result, or the exception, together with the client as the
  call leaves it.

  \<open>dict_key\<close> is the group key as the dictionary \<^verbatim>\<open>self.fragments\<close> sees it: a list or a
  dictionary is unhashable (\<^verbatim>\<open>TypeError\<close>), and \<^verbatim>\<open>True\<close> and \<^verbatim>\<open>False\<close> are the keys
  1 and 0. \<open>accumulator c k\<close> is the list held for \<open>k\<close>, empty when \<open>k\<close> is absent.
  \<^verbatim>\<open>total > 0\<close> raises \<^verbatim>\<open>TypeError\<close> unless the total is an integer or a boolean.
  On a value that is not a dictionary, \<^verbatim>\<open>data.get\<close> raises \<^verbatim>\<open>AttributeError\<close>.
\<close>

fun dict_key :: "pyval \<Rightarrow> pyval option" where
  "dict_key (PList xs) = None"
| "dict_key (PDict kvs) = None"
| "dict_key (PBool b) = Some (PInt (if b then 1 else 0))"
| "dict_key v = Some v"

definition fragment_id :: "pydict \<Rightarrow> pyval" where
  "fragment_id d = get_or d ''id'' (get_or d ''message_id'' (PStr ''default''))"

definition declared_total :: "pydict \<Rightarrow> pyval" where
  "declared_total d = get_or d ''total'' (get_or d ''total_fragments'' (get_or d ''count'' (PInt 0)))"

definition accumulator :: "client \<Rightarrow> pyval \<Rightarrow> pydict list" where
  "accumulator c k = (case fragments c k of None \<Rightarrow> [] | Some fs \<Rightarrow> fs)"

definition handle_fragment :: "env \<Rightarrow> client \<Rightarrow> pydict \<Rightarrow> (py_error + pyval) \<times> client" where
  "handle_fragment E c d =
     (case dict_key (fragment_id d) of
        None \<Rightarrow> (Inl TypeError, c)
      | Some k \<Rightarrow>
          (let acc = accumulator c k @ [d];
               c1 = c\<lparr>fragments := (fragments c)(k \<mapsto> acc)\<rparr>;
               total = declared_total d
           in (case int_key total of
                 None \<Rightarrow> (Inl TypeError, c1)
               | Some t \<Rightarrow>
                   if t > 0 \<and> int (length acc) \<ge> t
                   then (case reconstruct_fragments E acc of
                           Inl e \<Rightarrow> (Inl e, c1)
                         | Inr reconstructed \<Rightarrow>
                             (Inr reconstructed, c1\<lparr>fragments := (fragments c1)(k \<mapsto> [])\<rparr>))
                   else (Inr PNone, c1))))"

definition message_content :: "pyval \<Rightarrow> pyval" where
  "message_content data =
     (case data of
        PDict d \<Rightarrow>
          py_or (get d ''message'')
            (py_or (get d ''text'')
              (py_or (get d ''content'') (PStr (py_str data))))
      | _ \<Rightarrow> PStr (py_str data))"

definition handle_message :: "env \<Rightarrow> client \<Rightarrow> string \<Rightarrow> (py_error + pyval) \<times> client" where
  "handle_message E c raw_message =
     (case json_loads E raw_message of
        None \<Rightarrow> (Inr (PStr raw_message), c)
      | Some data \<Rightarrow>
          (let c1 = c\<lparr>message_buffer := message_buffer c @ [data]\<rparr>
           in (case (if enable_fragments c then is_fragmented_message data else Inr False) of
                 Inl e \<Rightarrow> (Inl e, c1)
               | Inr True \<Rightarrow>
                   (case data of
                      PDict d \<Rightarrow> handle_fragment E c1 d
                    | _ \<Rightarrow> (Inl AttributeError, c1))
               | Inr False \<Rightarrow> (Inr (message_content data), c1))))"

subsection \<open>Extracting a reply from the backend's text\<close>

text \<open>
  \<^verbatim>\<open>extract_json_from_text\<close> (utils.py, lines 62 to 107). \<open>is_space\<close> is the class
  \<^verbatim>\<open>\s\<close> and the characters \<^verbatim>\<open>strip()\<close> removes. \<open>sub_fence p\<close> is
  \<^verbatim>\<open>re.sub(p\s*, '', text)\<close> for a literal, non-empty \<open>p\<close>: scanning from the left, every
  occurrence of \<open>p\<close> goes with the white space that follows it. \<open>findall m\<close> is
  \<^verbatim>\<open>re.findall\<close> for a pattern that starts with an opening brace: the matches from left to
  right, without overlap; \<open>m\<close> reads the text after the opening brace and gives the number
  of characters the match takes there. \<open>flat_len\<close> does so for \<^verbatim>\<open>\{[^{}]*\}\<close> and
  \<open>nested_len\<close> for the pattern of line 96, in which a brace group may hold brace groups
  that hold none. \<open>first_dict\<close> is the loop that returns the first match that parses to a
  dictionary.
\<close>

definition is_space :: "char \<Rightarrow> bool" where
  "is_space c = List.member [9, 10, 11, 12, 13, 28, 29, 30, 31, 32, 133, 160] (of_char c :: nat)"

definition strip :: "string \<Rightarrow> string" where
  "strip s = rev (dropWhile is_space (rev (dropWhile is_space s)))"

function sub_fence :: "string \<Rightarrow> string \<Rightarrow> string" where
  "sub_fence p [] = []"
| "sub_fence p (c # cs) =
     (if p \<noteq> [] \<and> starts_with p (c # cs)
      then sub_fence p (dropWhile is_space (drop (length p) (c # cs)))
      else c # sub_fence p cs)"
  by pat_completeness auto
termination
proof (relation "measure (\<lambda>(p, s). length s)")
  fix p :: string and c :: char and cs :: string
  assume "p \<noteq> [] \<and> starts_with p (c # cs)"
  then obtain q qs where p: "p = q # qs" by (cases p) auto
  have "length (dropWhile is_space (drop (length p) (c # cs))) \<le> length (drop (length p) (c # cs))"
    by (rule length_dropWhile_le)
  also have "\<dots> < length (c # cs)" by (simp add: p)
  finally show "((p, dropWhile is_space (drop (length p) (c # cs))), (p, c # cs))
      \<in> measure (\<lambda>(p, s). length s)" by simp
qed simp_all

definition fence :: string where
  "fence = [CHR 0x60, CHR 0x60, CHR 0x60]"

definition not_brace :: "char \<Rightarrow> bool" where
  "not_brace c = (c \<noteq> CHR 0x7B \<and> c \<noteq> CHR 0x7D)"

definition flat_len :: "string \<Rightarrow> nat option" where
  "flat_len cs =
     (let n = length (takeWhile not_brace cs)
      in if n < length cs \<and> cs ! n = CHR 0x7D then Some (Suc n) else None)"

fun nested_len :: "string \<Rightarrow> nat option" where
  "nested_len [] = None"
| "nested_len (c # cs) =
     (if c = CHR 0x7D then Some 1
      else if c = CHR 0x7B then
        (case flat_len cs of
           None \<Rightarrow> None
         | Some k \<Rightarrow> (case nested_len (drop k cs) of None \<Rightarrow> None | Some m \<Rightarrow> Some (Suc (k + m))))
      else (case nested_len cs of None \<Rightarrow> None | Some m \<Rightarrow> Some (Suc m)))"

fun findall :: "(string \<Rightarrow> nat option) \<Rightarrow> string \<Rightarrow> string list" where
  "findall m [] = []"
| "findall m (c # cs) =
     (case (if c = CHR 0x7B then m cs else None) of
        Some n \<Rightarrow> (c # take n cs) # findall m (drop n cs)
      | None \<Rightarrow> findall m cs)"

fun first_dict :: "env \<Rightarrow> string list \<Rightarrow> pyval option" where
  "first_dict E [] = None"
| "first_dict E (mt # matches) =
     (case json_loads E mt of
        Some (PDict d) \<Rightarrow> Some (PDict d)
      | _ \<Rightarrow> first_dict E matches)"

definition extract_json_from_text :: "env \<Rightarrow> string \<Rightarrow> pyval" where
  "extract_json_from_text E text0 =
     (let text1 = sub_fence (fence @ ''json'') text0;
          text2 = sub_fence fence text1
      in (case json_loads E (strip text2) of
            Some v \<Rightarrow> v
          | None \<Rightarrow>
              (case first_dict E (findall flat_len text2) of
                 Some obj \<Rightarrow> obj
               | None \<Rightarrow>
                   (case first_dict E (findall nested_len text2) of
                      Some obj \<Rightarrow> obj
                    | None \<Rightarrow> PNone))))"

subsection \<open>The agent and the session loop\<close>

text \<open>
  \<open>process_message\<close> is agent.py, lines 79 to 106, called with a message that can be sliced.
  \<open>run\<close> is the loop of client.py, lines 153 to 189, over the frames the connection delivers;
  \<open>inputs\<close> are the lines the operator types in manual mode. It returns the replies sent, how
  the session ended (\<open>Closed\<close>: the frames are exhausted or the operator typed
  \<^verbatim>\<open>quit\<close>; \<open>Aborted\<close>: an exception left the loop, which \<^verbatim>\<open>run\<close> logs and raises
  again) and the client. \<^verbatim>\<open>processed_message[:200]\<close> raises on a value that is neither a string
  nor a list, and \<^verbatim>\<open>input()\<close> raises when no line is left. The transport is taken to accept every
  reply.
\<close>

definition process_message :: "env \<Rightarrow> pyval \<Rightarrow> pyval" where
  "process_message E message =
     (case query_llm E message of
        None \<Rightarrow> PNone
      | Some llm_response \<Rightarrow>
          if llm_response = [] then PNone
          else (let response_data = extract_json_from_text E llm_response
                in if \<not> truthy response_data then PNone else response_data))"

datatype session_end = Closed | Aborted

fun sliceable :: "pyval \<Rightarrow> bool" where
  "sliceable (PStr s) = True"
| "sliceable (PList xs) = True"
| "sliceable v = False"

definition lower :: "char \<Rightarrow> char" where
  "lower c = (let n = (of_char c :: nat) in if 65 \<le> n \<and> n \<le> 90 then char_of (n + 32) else c)"

fun run :: "env \<Rightarrow> client \<Rightarrow> string list \<Rightarrow> string list \<Rightarrow> pyval list \<times> session_end \<times> client" where
  "run E c inputs [] = ([], Closed, c)"
| "run E c inputs (raw_message # frames) =
     (case handle_message E c raw_message of
        (Inl e, c1) \<Rightarrow> ([], Aborted, c1)
      | (Inr processed_message, c1) \<Rightarrow>
          if processed_message = PNone then run E c1 inputs frames
          else if \<not> sliceable processed_message then ([], Aborted, c1)
          else if auto_mode c1 then
            (let response_data = process_message E processed_message
             in if truthy response_data
                then (case run E c1 inputs frames of (sent, r) \<Rightarrow> (response_data # sent, r))
                else run E c1 inputs frames)
          else
            (case inputs of
               [] \<Rightarrow> ([], Aborted, c1)
             | line # rest \<Rightarrow>
                 (let user_input = strip line
                  in if map lower user_input = ''quit'' then ([], Closed, c1)
                     else (case json_loads E user_input of
                             Some response_data \<Rightarrow>
                               (case run E c1 rest frames of (sent, r) \<Rightarrow> (response_data # sent, r))
                           | None \<Rightarrow> run E c1 rest frames))))"

section \<open>Vocabulary of the properties\<close>

text \<open>
  A client as \<^verbatim>\<open>__init__\<close> leaves it; the two flags come from the configuration.
\<close>

definition new_client :: "bool \<Rightarrow> bool \<Rightarrow> client" where
  "new_client auto enable =
     \<lparr>auto_mode = auto, enable_fragments = enable, fragments = Map.empty, message_buffer = []\<rparr>"

text \<open>
  Successive calls of \<open>handle_message\<close> on one client: the results in order and the client
  after the last call. A call that raises leaves the client as it was at the raise.
\<close>

fun feed :: "env \<Rightarrow> client \<Rightarrow> string list \<Rightarrow> (py_error + pyval) list \<times> client" where
  "feed E c [] = ([], c)"
| "feed E c (raw # raws) =
     (case handle_message E c raw of
        (r, c1) \<Rightarrow> (case feed E c1 raws of (rs, c2) \<Rightarrow> (r # rs, c2)))"

text \<open>Python's \<^verbatim>\<open><=\<close> on two integers (booleans included) or on two strings.\<close>

definition key_le :: "pyval \<Rightarrow> pyval \<Rightarrow> bool" where
  "key_le a b =
     (case (int_key a, int_key b) of
        (Some i, Some j) \<Rightarrow> i \<le> j
      | _ \<Rightarrow> (case (str_key a, str_key b) of (Some s, Some t) \<Rightarrow> s \<le> t | _ \<Rightarrow> False))"

definition ascending :: "pydict list \<Rightarrow> bool" where
  "ascending ss = sorted_wrt (\<lambda>a b. key_le (sequence_key a) (sequence_key b)) ss"

text \<open>
  The sequence keys of a group can be ordered without a comparison that raises: at most one
  fragment, or all integers, or all strings. They cannot when there are two fragments or more and
  the keys are neither all integers, nor all strings, nor all lists.
\<close>

definition comparable_keys :: "pydict list \<Rightarrow> bool" where
  "comparable_keys frags =
     (length frags \<le> 1
      \<or> list_all (\<lambda>x. int_key (sequence_key x) \<noteq> None) frags
      \<or> list_all (\<lambda>x. str_key (sequence_key x) \<noteq> None) frags)"

definition incomparable_keys :: "pydict list \<Rightarrow> bool" where
  "incomparable_keys frags =
     (1 < length frags
      \<and> \<not> list_all (\<lambda>x. int_key (sequence_key x) \<noteq> None) frags
      \<and> \<not> list_all (\<lambda>x. str_key (sequence_key x) \<noteq> None) frags
      \<and> \<not> list_all (\<lambda>x. is_list (sequence_key x)) frags)"

text \<open>
  \<open>total_exceeds n d\<close>: fragment \<open>d\<close> declares an integer total above \<open>n\<close>.
  \<open>waiting_from n ds\<close>: the fragments \<open>ds\<close> arrive at a group that holds \<open>n\<close>
  fragments, and each one still leaves the group below the total that fragment declares.
\<close>

definition total_exceeds :: "nat \<Rightarrow> pydict \<Rightarrow> bool" where
  "total_exceeds n d = (case int_key (declared_total d) of Some t \<Rightarrow> int n < t | None \<Rightarrow> False)"

fun waiting_from :: "nat \<Rightarrow> pydict list \<Rightarrow> bool" where
  "waiting_from n [] = True"
| "waiting_from n (d # ds) = (total_exceeds (Suc n) d \<and> waiting_from (Suc n) ds)"

text \<open>
  \<open>in_group E k raw\<close>: the frame decodes to a dictionary that \<open>is_fragmented_message\<close>
  accepts and whose group key is \<open>k\<close>, so a client with reconstruction enabled files it under
  \<open>k\<close>.
\<close>

definition in_group :: "env \<Rightarrow> pyval \<Rightarrow> string \<Rightarrow> bool" where
  "in_group E k raw =
     (case json_loads E raw of
        Some (PDict d) \<Rightarrow> is_fragmented_message (PDict d) = Inr True \<and> dict_key (fragment_id d) = Some k
      | _ \<Rightarrow> False)"

text \<open>Two clients that differ at most in whether an empty group is recorded or absent.\<close>

definition same_groups :: "client \<Rightarrow> client \<Rightarrow> bool" where
  "same_groups c c' =
     (auto_mode c = auto_mode c' \<and> enable_fragments c = enable_fragments c'
      \<and> message_buffer c = message_buffer c' \<and> (\<forall>k. accumulator c k = accumulator c' k))"

fun is_dict :: "pyval \<Rightarrow> bool" where
  "is_dict (PDict d) = True"
| "is_dict v = False"

section \<open>Sample frames\<close>

text \<open>
  Concrete frames, with \<^verbatim>\<open>json.loads\<close> restricted to them (every other text is taken as not
  JSON), a backend that answers \<^verbatim>\<open>42\<close>, and a client with both flags set.
\<close>

definition frag :: "string \<Rightarrow> int \<Rightarrow> int \<Rightarrow> string \<Rightarrow> pydict" where
  "frag g s n t = [(''id'', PStr g), (''sequence'', PInt s), (''total'', PInt n), (''text'', PStr t)]"

definition frame_a :: string where
  \<open>frame_a = ''{"id": "g1", "sequence": 1, "total": 3, "text": "a"}''\<close>

definition frame_c :: string where
  \<open>frame_c = ''{"id": "g1", "sequence": 3, "total": 3, "text": "c"}''\<close>

definition frame_b :: string where
  \<open>frame_b = ''{"id": "g1", "sequence": 2, "total": 3, "text": "b"}''\<close>

definition frame_x :: string where
  \<open>frame_x = ''{"id": "g2", "sequence": 1, "total": 2, "text": "x"}''\<close>

definition frame_y :: string where
  \<open>frame_y = ''{"id": "g2", "timestamp": "t2", "total": 2, "text": "y"}''\<close>

definition dict_y :: pydict where
  "dict_y = [(''id'', PStr ''g2''), (''timestamp'', PStr ''t2''), (''total'', PInt 2), (''text'', PStr ''y'')]"

definition frame_p :: string where
  \<open>frame_p = ''{"id": "g3", "sequence": 1, "total": 2, "text": "p"}''\<close>

definition frame_q :: string where
  \<open>frame_q = ''{"id": "g3", "sequence": 2, "text": "q"}''\<close>

definition dict_q :: pydict where
  "dict_q = [(''id'', PStr ''g3''), (''sequence'', PInt 2), (''text'', PStr ''q'')]"

definition frame_e :: string where
  \<open>frame_e = ''{"id": "g4", "total": 1, "text": ""}''\<close>

definition dict_e :: pydict where
  "dict_e = [(''id'', PStr ''g4''), (''total'', PInt 1), (''text'', PStr [])]"

definition sample_loads :: "string \<Rightarrow> pyval option" where
  "sample_loads = map_of
     [(frame_a, PDict (frag ''g1'' 1 3 ''a'')),
      (frame_c, PDict (frag ''g1'' 3 3 ''c'')),
      (frame_b, PDict (frag ''g1'' 2 3 ''b'')),
      (frame_x, PDict (frag ''g2'' 1 2 ''x'')),
      (frame_y, PDict dict_y),
      (frame_p, PDict (frag ''g3'' 1 2 ''p'')),
      (frame_q, PDict dict_q),
      (frame_e, PDict dict_e),
      (''[1,2]'', PList [PInt 1, PInt 2]),
      (''42'', PInt 42)]"

definition sample_env :: env where
  "sample_env = \<lparr>json_loads = sample_loads, sorted_list_keys = (\<lambda>xs. Inl TypeError), query_llm = (\<lambda>m. Some ''42'')\<rparr>"


definition c0 :: client where
  "c0 = new_client True True"


section \<open>Lemmas about one frame and about sequences of frames\<close>

subsection \<open>One call on a fragment\<close>

lemma total_key_fragmented:
  "int_key (declared_total d) = Some t \<Longrightarrow> t \<noteq> 0 \<Longrightarrow> is_fragmented_message (PDict d) = Inr True"
  by (auto simp: declared_total_def get_or_def is_fragmented_message_def fragment_keys_def total_keys_def
      split: option.splits sum.splits bool.splits)

lemma handle_message_fragment:
  "enable_fragments c \<Longrightarrow> json_loads E raw = Some (PDict d) \<Longrightarrow> is_fragmented_message (PDict d) = Inr True
   \<Longrightarrow> handle_message E c raw = handle_fragment E (c\<lparr>message_buffer := message_buffer c @ [PDict d]\<rparr>) d"
  by (simp add: handle_message_def)

lemma handle_fragment_waiting:
  "dict_key (fragment_id d) = Some k \<Longrightarrow> int_key (declared_total d) = Some t
   \<Longrightarrow> \<not> (0 < t \<and> t \<le> int (length (accumulator c k)) + 1)
   \<Longrightarrow> handle_fragment E c d = (Inr PNone, c\<lparr>fragments := (fragments c)(k \<mapsto> accumulator c k @ [d])\<rparr>)"
  by (auto simp: handle_fragment_def Let_def)

lemma handle_fragment_complete:
  "dict_key (fragment_id d) = Some k \<Longrightarrow> int_key (declared_total d) = Some t
   \<Longrightarrow> 0 < t \<Longrightarrow> t \<le> int (length (accumulator c k)) + 1
   \<Longrightarrow> handle_fragment E c d =
       (case reconstruct_fragments E (accumulator c k @ [d]) of
          Inl e \<Rightarrow> (Inl e, c\<lparr>fragments := (fragments c)(k \<mapsto> accumulator c k @ [d])\<rparr>)
        | Inr m \<Rightarrow> (Inr m, c\<lparr>fragments := (fragments c)(k \<mapsto> [])\<rparr>))"
  by (auto simp: handle_fragment_def Let_def split: sum.splits)

lemma accumulator_simps [simp]:
  "accumulator (c\<lparr>fragments := (fragments c')(k \<mapsto> xs)\<rparr>) j = (if j = k then xs else accumulator c' j)"
  "accumulator (c\<lparr>fragments := (fragments c')(k := None)\<rparr>) j = (if j = k then [] else accumulator c' j)"
  "accumulator (c\<lparr>message_buffer := b\<rparr>) j = accumulator c j"
  by (simp_all add: accumulator_def)

lemma feed_Cons:
  "fst (feed E c (raw # raws)) = fst (handle_message E c raw) # fst (feed E (snd (handle_message E c raw)) raws)"
  "snd (feed E c (raw # raws)) = snd (feed E (snd (handle_message E c raw)) raws)"
  by (simp_all split: prod.splits)

lemma feed_append:
  "fst (feed E c (xs @ ys)) = fst (feed E c xs) @ fst (feed E (snd (feed E c xs)) ys)"
  "snd (feed E c (xs @ ys)) = snd (feed E (snd (feed E c xs)) ys)"
  by (induction xs arbitrary: c) (simp_all add: feed_Cons del: feed.simps(2))

subsection \<open>Extracted content and the sort\<close>

lemma py_str_dict_nonempty: "py_str (PDict d) \<noteq> []"
  by simp

lemma truthy_fragment_text: "truthy (fragment_text d)"
  by (simp add: fragment_text_def py_or_def)

lemma collect_texts_all: "collect_texts ss = map (\<lambda>d. py_str (fragment_text d)) ss"
  by (induction ss) (simp_all add: truthy_fragment_text Let_def)

lemma int_key_not_str: "int_key v = Some i \<Longrightarrow> str_key v = None"
  by (cases v) simp_all

lemma py_sorted_short: "length xs \<le> 1 \<Longrightarrow> py_sorted E key xs = Inr xs \<and> sort_key f xs = xs"
  by (cases xs) (simp_all add: py_sorted_def)

lemma py_sorted_int:
  assumes "list_all (\<lambda>x. int_key (key x) \<noteq> None) xs"
  shows "py_sorted E key xs = Inr (sort_key (\<lambda>x. int_of (key x)) xs)"
proof (cases "length xs \<le> 1")
  case True
  then show ?thesis using py_sorted_short[of xs E key "\<lambda>x. int_of (key x)"] by simp
next
  case False
  then show ?thesis using assms by (simp add: py_sorted_def)
qed

lemma py_sorted_str:
  assumes "list_all (\<lambda>x. str_key (key x) \<noteq> None) xs"
  shows "py_sorted E key xs = Inr (sort_key (\<lambda>x. str_of (key x)) xs)"
proof (cases "length xs \<le> 1")
  case True
  then show ?thesis using py_sorted_short[of xs E key "\<lambda>x. str_of (key x)"] by simp
next
  case False
  then obtain x where x: "x \<in> set xs" by (cases xs) auto
  with assms have "str_key (key x) \<noteq> None" by (simp add: list_all_iff)
  then have "int_key (key x) = None" using int_key_not_str[of "key x"] by (cases "int_key (key x)") auto
  with x have "\<not> list_all (\<lambda>x. int_key (key x) \<noteq> None) xs" by (auto simp: list_all_iff)
  then show ?thesis using False assms by (simp add: py_sorted_def)
qed

lemma ascending_int:
  assumes "list_all (\<lambda>x. int_key (sequence_key x) \<noteq> None) xs"
  shows "ascending (sort_key (\<lambda>x. int_of (sequence_key x)) xs)"
proof -
  let ?f = "\<lambda>x. int_of (sequence_key x)"
  have "sorted (map ?f (sort_key ?f xs))" by (rule sorted_sort_key)
  then have "sorted_wrt (\<lambda>a b. ?f a \<le> ?f b) (sort_key ?f xs)"
    by (simp add: sorted_wrt_map)
  moreover have "key_le (sequence_key a) (sequence_key b)"
    if "a \<in> set (sort_key ?f xs)" "b \<in> set (sort_key ?f xs)" "?f a \<le> ?f b" for a b
  proof -
    from that assms obtain i j where "int_key (sequence_key a) = Some i" "int_key (sequence_key b) = Some j"
      by (fastforce simp: list_all_iff)
    then show ?thesis using that(3) by (simp add: key_le_def int_of_def)
  qed
  ultimately show ?thesis
    unfolding ascending_def by (rule sorted_wrt_mono_rel[rotated])
qed

lemma ascending_str:
  assumes "list_all (\<lambda>x. str_key (sequence_key x) \<noteq> None) xs"
  shows "ascending (sort_key (\<lambda>x. str_of (sequence_key x)) xs)"
proof -
  let ?f = "\<lambda>x. str_of (sequence_key x)"
  have "sorted (map ?f (sort_key ?f xs))" by (rule sorted_sort_key)
  then have "sorted_wrt (\<lambda>a b. ?f a \<le> ?f b) (sort_key ?f xs)"
    by (simp add: sorted_wrt_map)
  moreover have "key_le (sequence_key a) (sequence_key b)"
    if "a \<in> set (sort_key ?f xs)" "b \<in> set (sort_key ?f xs)" "?f a \<le> ?f b" for a b
  proof -
    from that assms obtain s t where st: "str_key (sequence_key a) = Some s" "str_key (sequence_key b) = Some t"
      by (fastforce simp: list_all_iff)
    then have "int_key (sequence_key a) = None"
      using int_key_not_str[of "sequence_key a"] by (cases "int_key (sequence_key a)") auto
    then show ?thesis using that(3) st by (simp add: key_le_def str_of_def)
  qed
  ultimately show ?thesis
    unfolding ascending_def by (rule sorted_wrt_mono_rel[rotated])
qed

lemma reconstruct_sorted:
  "py_sorted E sequence_key frags = Inr ss \<Longrightarrow> ss \<noteq> []
   \<Longrightarrow> reconstruct_fragments E frags = Inr (PStr (join '' '' (map (\<lambda>d. py_str (fragment_text d)) ss)))"
  by (auto simp: reconstruct_fragments_def collect_texts_all py_sorted_def)

subsection \<open>What a call reads and writes\<close>

lemma handle_fragment_flags:
  "enable_fragments (snd (handle_fragment E c d)) = enable_fragments c"
  "auto_mode (snd (handle_fragment E c d)) = auto_mode c"
  "message_buffer (snd (handle_fragment E c d)) = message_buffer c"
  by (simp_all add: handle_fragment_def Let_def split: option.splits sum.splits)

lemma handle_message_flags:
  "enable_fragments (snd (handle_message E c raw)) = enable_fragments c"
  "auto_mode (snd (handle_message E c raw)) = auto_mode c"
  by (simp_all add: handle_message_def Let_def handle_fragment_flags
      split: option.splits sum.splits bool.splits pyval.splits)

lemma handle_fragment_other:
  "dict_key (fragment_id d) \<noteq> Some k \<Longrightarrow> fragments (snd (handle_fragment E c d)) k = fragments c k"
  by (auto simp: handle_fragment_def Let_def split: option.splits sum.splits)

lemma handle_message_other:
  "\<not> (enable_fragments c \<and> in_group E k raw) \<Longrightarrow> fragments (snd (handle_message E c raw)) k = fragments c k"
  by (auto simp: handle_message_def in_group_def Let_def handle_fragment_other
      split: option.splits sum.splits bool.splits pyval.splits)

lemma handle_fragment_own:
  assumes "dict_key (fragment_id d) = Some k" "fragments c k = fragments c' k"
  shows "fst (handle_fragment E c d) = fst (handle_fragment E c' d)
       \<and> fragments (snd (handle_fragment E c d)) k = fragments (snd (handle_fragment E c' d)) k"
  using assms by (auto simp: handle_fragment_def accumulator_def Let_def split: option.splits sum.splits)

lemma handle_message_own:
  assumes "in_group E k raw" "enable_fragments c = enable_fragments c'" "fragments c k = fragments c' k"
  shows "fst (handle_message E c raw) = fst (handle_message E c' raw)
       \<and> fragments (snd (handle_message E c raw)) k = fragments (snd (handle_message E c' raw)) k"
proof -
  from assms(1) obtain d where d: "json_loads E raw = Some (PDict d)"
    "is_fragmented_message (PDict d) = Inr True" "dict_key (fragment_id d) = Some k"
    by (auto simp: in_group_def split: option.splits pyval.splits)
  show ?thesis
  proof (cases "enable_fragments c")
    case True
    with assms(2) have en': "enable_fragments c'" by simp
    show ?thesis
      unfolding handle_message_fragment[OF True d(1,2)] handle_message_fragment[OF en' d(1,2)]
      using handle_fragment_own[OF d(3), of "c\<lparr>message_buffer := message_buffer c @ [PDict d]\<rparr>"
          "c'\<lparr>message_buffer := message_buffer c' @ [PDict d]\<rparr>" E] assms(3) by simp
  next
    case False
    with assms(2) have "\<not> enable_fragments c'" by simp
    with False show ?thesis using d(1) assms(3) by (simp add: handle_message_def)
  qed
qed

lemma feed_flags: "enable_fragments (snd (feed E c raws)) = enable_fragments c"
  by (induction raws arbitrary: c) (simp_all add: feed_Cons handle_message_flags del: feed.simps(2))

lemma isolation_gen:
  "enable_fragments c = enable_fragments c' \<Longrightarrow> fragments c k = fragments c' k \<Longrightarrow>
   map snd (filter (\<lambda>p. in_group E k (fst p)) (zip raws (fst (feed E c raws))))
     = fst (feed E c' (filter (in_group E k) raws))
   \<and> fragments (snd (feed E c raws)) k = fragments (snd (feed E c' (filter (in_group E k) raws))) k"
proof (induction raws arbitrary: c c')
  case Nil
  then show ?case by simp
next
  case (Cons raw raws)
  let ?c1 = "snd (handle_message E c raw)"
  show ?case
  proof (cases "in_group E k raw")
    case True
    let ?c1' = "snd (handle_message E c' raw)"
    have en1: "enable_fragments ?c1 = enable_fragments ?c1'"
      using Cons.prems(1) by (simp add: handle_message_flags)
    from handle_message_own[of E k raw c c'] True Cons.prems
    have own: "fst (handle_message E c raw) = fst (handle_message E c' raw)"
      "fragments ?c1 k = fragments ?c1' k" by simp_all
    from Cons.IH[OF en1 own(2)] show ?thesis
      using True own(1) by (simp add: feed_Cons del: feed.simps(2))
  next
    case False
    have en1: "enable_fragments ?c1 = enable_fragments c'"
      using Cons.prems(1) by (simp add: handle_message_flags)
    have "fragments ?c1 k = fragments c' k"
      using False handle_message_other[of c E k raw] Cons.prems(2) by simp
    from Cons.IH[OF en1 this] show ?thesis
      using False by (simp add: feed_Cons del: feed.simps(2))
  qed
qed

lemma handle_fragment_same:
  assumes "same_groups c c'"
  shows "fst (handle_fragment E c d) = fst (handle_fragment E c' d)
       \<and> same_groups (snd (handle_fragment E c d)) (snd (handle_fragment E c' d))"
proof (cases "dict_key (fragment_id d)")
  case None
  then show ?thesis using assms by (simp add: handle_fragment_def)
next
  case (Some k)
  have acc: "accumulator c k = accumulator c' k" using assms by (simp add: same_groups_def)
  show ?thesis using assms
    by (simp add: handle_fragment_def Some acc Let_def same_groups_def split: option.splits sum.splits)
qed

lemma handle_message_same:
  assumes "same_groups c c'"
  shows "fst (handle_message E c raw) = fst (handle_message E c' raw)
       \<and> same_groups (snd (handle_message E c raw)) (snd (handle_message E c' raw))"
proof -
  have upd: "same_groups (c\<lparr>message_buffer := message_buffer c @ [v]\<rparr>) (c'\<lparr>message_buffer := message_buffer c' @ [v]\<rparr>)" for v
    using assms by (simp add: same_groups_def)
  have en: "enable_fragments c = enable_fragments c'" using assms by (simp add: same_groups_def)
  show ?thesis
    using assms upd handle_fragment_same[OF upd, of E] en
    by (auto simp: handle_message_def Let_def split: option.splits sum.splits bool.splits pyval.splits)
qed

lemma feed_same:
  "same_groups c c' \<Longrightarrow> fst (feed E c raws) = fst (feed E c' raws)
     \<and> same_groups (snd (feed E c raws)) (snd (feed E c' raws))"
proof (induction raws arbitrary: c c')
  case Nil
  then show ?case by simp
next
  case (Cons raw raws)
  from handle_message_same[OF Cons.prems, of E raw]
  have "fst (handle_message E c raw) = fst (handle_message E c' raw)"
    "same_groups (snd (handle_message E c raw)) (snd (handle_message E c' raw))" by simp_all
  with Cons.IH[OF this(2)] show ?case by (simp add: feed_Cons del: feed.simps(2))
qed


subsection \<open>Waiting and completing groups\<close>

lemma sorted_comparable:
  assumes "comparable_keys frags"
  shows "\<exists>ss. py_sorted E sequence_key frags = Inr ss \<and> mset ss = mset frags \<and> ascending ss"
proof (cases "length frags \<le> 1")
  case True
  then have "py_sorted E sequence_key frags = Inr frags" by (simp add: py_sorted_def)
  moreover have "ascending frags" using True by (cases frags) (simp_all add: ascending_def)
  ultimately show ?thesis by simp
next
  case False
  with assms show ?thesis
    using py_sorted_int[of sequence_key frags E] py_sorted_str[of sequence_key frags E]
      ascending_int[of frags] ascending_str[of frags] by (auto simp: comparable_keys_def)
qed

lemma sorted_incomparable:
  "incomparable_keys frags \<Longrightarrow> py_sorted E sequence_key frags = Inl TypeError"
  by (simp add: incomparable_keys_def py_sorted_def)

lemma all_total_waiting:
  "list_all (total_exceeds (n + length ds)) ds \<Longrightarrow> waiting_from n ds"
proof (induction ds arbitrary: n)
  case Nil
  then show ?case by simp
next
  case (Cons d ds)
  from Cons.prems have "total_exceeds (Suc n) d"
    by (auto simp: total_exceeds_def split: option.splits)
  moreover from Cons.prems have "list_all (total_exceeds (Suc n + length ds)) ds" by simp
  ultimately show ?case using Cons.IH[of "Suc n"] by simp
qed

lemma feed_waiting:
  "enable_fragments c \<Longrightarrow> map (json_loads E) raws = map (\<lambda>d. Some (PDict d)) ds
   \<Longrightarrow> list_all (\<lambda>d. dict_key (fragment_id d) = Some k) ds
   \<Longrightarrow> waiting_from (length (accumulator c k)) ds
   \<Longrightarrow> fst (feed E c raws) = replicate (length ds) (Inr PNone)
       \<and> accumulator (snd (feed E c raws)) k = accumulator c k @ ds
       \<and> enable_fragments (snd (feed E c raws))"
proof (induction ds arbitrary: raws c)
  case Nil
  then show ?case by simp
next
  case (Cons d ds)
  from Cons.prems(2) obtain raw raws' where raws: "raws = raw # raws'"
    and raw: "json_loads E raw = Some (PDict d)"
    and rest: "map (json_loads E) raws' = map (\<lambda>d. Some (PDict d)) ds"
    by (cases raws) auto
  from Cons.prems(3) have k: "dict_key (fragment_id d) = Some k"
    and ks: "list_all (\<lambda>d. dict_key (fragment_id d) = Some k) ds" by simp_all
  from Cons.prems(4) obtain t where t: "int_key (declared_total d) = Some t"
    and lt: "int (Suc (length (accumulator c k))) < t"
    by (auto simp: total_exceeds_def split: option.splits)
  let ?c0 = "c\<lparr>message_buffer := message_buffer c @ [PDict d]\<rparr>"
  let ?c1 = "?c0\<lparr>fragments := (fragments ?c0)(k \<mapsto> accumulator ?c0 k @ [d])\<rparr>"
  have frag: "is_fragmented_message (PDict d) = Inr True"
    using t lt by (intro total_key_fragmented[of d t]) auto
  have step: "handle_message E c raw = (Inr PNone, ?c1)"
    using handle_message_fragment[OF Cons.prems(1) raw frag]
      handle_fragment_waiting[OF k t, of ?c0 E] lt by simp
  have acc1: "accumulator ?c1 k = accumulator c k @ [d]" by simp
  have en1: "enable_fragments ?c1" using Cons.prems(1) by simp
  have tot: "waiting_from (length (accumulator ?c1 k)) ds"
    using Cons.prems(4) by (simp add: acc1)
  from Cons.IH[OF en1 rest ks tot] show ?case
    by (simp add: raws feed_Cons step acc1 del: feed.simps(2))
qed

lemma complete_set:
  assumes en: "enable_fragments c"
    and raws: "map (json_loads E) raws = map (\<lambda>d. Some (PDict d)) ds"
    and grp: "list_all (\<lambda>d. dict_key (fragment_id d) = Some k) ds"
    and tot: "list_all (\<lambda>d. int_key (declared_total d) = Some (int (length ds))) ds"
    and ne: "ds \<noteq> []"
    and fresh: "accumulator c k = []"
  shows "fst (feed E c raws) = replicate (length ds - 1) (Inr PNone) @ [reconstruct_fragments E ds]"
proof -
  let ?n = "length ds"
  have len: "length raws = ?n" using raws by (metis length_map)
  then have rne: "raws \<noteq> []" using ne by auto
  have ds_split: "ds = butlast ds @ [last ds]" using ne by simp
  have raws_split: "raws = butlast raws @ [last raws]" using rne by simp
  have bl: "map (json_loads E) (butlast raws) = map (\<lambda>d. Some (PDict d)) (butlast ds)"
    using raws by (simp add: map_butlast)
  have lst: "json_loads E (last raws) = Some (PDict (last ds))"
    using raws rne ne by (metis last_map)
  have grp_b: "list_all (\<lambda>d. dict_key (fragment_id d) = Some k) (butlast ds)"
    using grp by (auto simp: list_all_iff dest: in_set_butlastD)
  have "list_all (total_exceeds (0 + length (butlast ds))) (butlast ds)"
    using tot ne by (auto simp: list_all_iff total_exceeds_def dest!: in_set_butlastD)
  then have tot_b: "waiting_from (length (accumulator c k)) (butlast ds)"
    unfolding fresh by (simp add: all_total_waiting)
  note w = feed_waiting[OF en bl grp_b tot_b]
  let ?c1 = "snd (feed E c (butlast raws))"
  have acc1: "accumulator ?c1 k = butlast ds" using w fresh by simp
  have en1: "enable_fragments ?c1" using w by simp
  have kl: "dict_key (fragment_id (last ds)) = Some k"
    using grp ne by (auto simp: list_all_iff)
  have tl: "int_key (declared_total (last ds)) = Some (int ?n)"
    using tot ne by (auto simp: list_all_iff)
  have frag: "is_fragmented_message (PDict (last ds)) = Inr True"
    using tl ne by (intro total_key_fragmented[of _ "int ?n"]) auto
  let ?c2 = "?c1\<lparr>message_buffer := message_buffer ?c1 @ [PDict (last ds)]\<rparr>"
  have acc2: "accumulator ?c2 k @ [last ds] = ds" using acc1 ds_split by simp
  have cnt: "int ?n \<le> int (length (accumulator ?c2 k)) + 1" using acc1 ne by simp
  have pos: "0 < int ?n" using ne by simp
  have step: "fst (handle_message E ?c1 (last raws)) = reconstruct_fragments E ds"
    using handle_message_fragment[OF en1 lst frag] handle_fragment_complete[OF kl tl pos cnt, of E]
    unfolding acc2 by (simp split: sum.splits)
  have "fst (feed E c raws) = fst (feed E c (butlast raws)) @ fst (feed E ?c1 [last raws])"
    using feed_append(1)[of E c "butlast raws" "[last raws]"] raws_split by simp
  then show ?thesis using w step by (simp add: feed_Cons del: feed.simps(2))
qed

lemma no_total_keys:
  "map_of d ''total'' = None \<Longrightarrow> map_of d ''total_fragments'' = None \<Longrightarrow> map_of d ''count'' = None
   \<Longrightarrow> declared_total d = PInt 0"
  by (simp add: declared_total_def get_or_def)


lemma same_groups_forget:
  "fragments c k = Some [] \<Longrightarrow> same_groups c (c\<lparr>fragments := (fragments c)(k := None)\<rparr>)"
  by (auto simp: same_groups_def accumulator_def)

subsection \<open>Non-empty output and the message buffer\<close>

lemma str_nat_nonempty: "str_nat n \<noteq> []"
  by (subst str_nat.simps) simp

lemma py_str_truthy: "truthy v \<Longrightarrow> py_str v \<noteq> []"
  by (cases v) (simp_all add: str_int_def str_nat_nonempty repr_str_def Let_def)

lemma fragment_text_nonempty: "py_str (fragment_text f) \<noteq> []"
  by (rule py_str_truthy) (rule truthy_fragment_text)

lemma handle_message_buffer:
  "message_buffer (snd (handle_message E c raw)) =
     message_buffer c @ (case json_loads E raw of None \<Rightarrow> [] | Some data \<Rightarrow> [data])"
  by (simp add: handle_message_def Let_def handle_fragment_flags
      split: option.splits sum.splits bool.splits pyval.splits)

lemma feed_buffer:
  "message_buffer (snd (feed E c raws)) = message_buffer c @ List.map_filter (json_loads E) raws"
  by (induction raws arbitrary: c)
     (simp_all add: feed_Cons handle_message_buffer List.map_filter_simps del: feed.simps(2) split: option.splits)

lemma length_map_filter: "length (List.map_filter f xs) = length (filter (\<lambda>x. f x \<noteq> None) xs)"
  by (induction xs) (simp_all add: List.map_filter_simps split: option.splits)

section \<open>The claims\<close>

text \<open>
  C1. As stated, for every complete fragment set, the claim fails: two fragments of one group whose
  sequence keys are an integer \<^verbatim>\<open>sequence\<close> and a string \<^verbatim>\<open>timestamp\<close> make the sort
  raise \<^verbatim>\<open>TypeError\<close> on the completing frame, and no message is returned.
\<close>

theorem mixed_sequence_keys_counterexample:
  "fst (feed sample_env c0 [frame_x, frame_y]) = [Inr PNone, Inl TypeError]"
  by code_simp

text \<open>
  C1, amended. Let the fragments of a complete set share one hashable group key, each declare the
  total \<open>n > 0\<close> that is their number, and have sequence keys that can be ordered (all integers,
  or all strings, or a single fragment); let reconstruction be enabled and the group start empty.
  Fed in any arrival order \<open>ds\<close>, the first \<open>n - 1\<close> calls return \<^verbatim>\<open>None\<close> and the
  \<open>n\<close>-th returns the extracted contents, joined by single spaces, of a rearrangement of the
  fragments that ascends in the sequence key (\<^verbatim>\<open>sequence\<close>, else \<^verbatim>\<open>timestamp\<close>, else
  \<^verbatim>\<open>index\<close>, else 0). The witness is the scenario of the three fragments of group
  \<^verbatim>\<open>g1\<close>, which yields \<^verbatim>\<open>a b c\<close> on the third frame.
\<close>

theorem complete_set_reconstructed:
  assumes "enable_fragments c"
    and "map (json_loads E) raws = map (\<lambda>d. Some (PDict d)) ds"
    and "list_all (\<lambda>d. dict_key (fragment_id d) = Some k) ds"
    and "list_all (\<lambda>d. int_key (declared_total d) = Some (int (length ds))) ds"
    and "ds \<noteq> []"
    and "accumulator c k = []"
    and "comparable_keys ds"
  shows "\<exists>ss. mset ss = mset ds \<and> ascending ss
           \<and> fst (feed E c raws) =
               replicate (length ds - 1) (Inr PNone)
               @ [Inr (PStr (join '' '' (map (\<lambda>d. py_str (fragment_text d)) ss)))]"
proof -
  from sorted_comparable[OF assms(7), of E] obtain ss where
    ss: "py_sorted E sequence_key ds = Inr ss" "mset ss = mset ds" "ascending ss" by blast
  from ss(2) assms(5) have "ss \<noteq> []" by auto
  from reconstruct_sorted[OF ss(1) this] complete_set[OF assms(1-6)] ss(2,3)
  show ?thesis by auto
qed

theorem complete_set_reconstructed_witness:
  "enable_fragments c0
   \<and> map (json_loads sample_env) [frame_a, frame_c, frame_b]
       = map (\<lambda>d. Some (PDict d)) [frag ''g1'' 1 3 ''a'', frag ''g1'' 3 3 ''c'', frag ''g1'' 2 3 ''b'']
   \<and> list_all (\<lambda>d. dict_key (fragment_id d) = Some (PStr ''g1''))
        [frag ''g1'' 1 3 ''a'', frag ''g1'' 3 3 ''c'', frag ''g1'' 2 3 ''b'']
   \<and> list_all (\<lambda>d. int_key (declared_total d) = Some 3)
        [frag ''g1'' 1 3 ''a'', frag ''g1'' 3 3 ''c'', frag ''g1'' 2 3 ''b'']
   \<and> accumulator c0 (PStr ''g1'') = []
   \<and> comparable_keys [frag ''g1'' 1 3 ''a'', frag ''g1'' 3 3 ''c'', frag ''g1'' 2 3 ''b'']
   \<and> (\<exists>ss. mset ss = mset [frag ''g1'' 1 3 ''a'', frag ''g1'' 3 3 ''c'', frag ''g1'' 2 3 ''b'']
          \<and> ascending ss
          \<and> fst (feed sample_env c0 [frame_a, frame_c, frame_b]) =
               [Inr PNone, Inr PNone, Inr (PStr (join '' '' (map (\<lambda>d. py_str (fragment_text d)) ss)))])
   \<and> fst (feed sample_env c0 [frame_a, frame_c, frame_b]) = [Inr PNone, Inr PNone, Inr (PStr ''a b c'')]"
proof -
  let ?ds = "[frag ''g1'' 1 3 ''a'', frag ''g1'' 3 3 ''c'', frag ''g1'' 2 3 ''b'']"
  have h1: "enable_fragments c0" by code_simp
  have h2: "map (json_loads sample_env) [frame_a, frame_c, frame_b] = map (\<lambda>d. Some (PDict d)) ?ds"
    by code_simp
  have h3: "list_all (\<lambda>d. dict_key (fragment_id d) = Some (PStr ''g1'')) ?ds" by code_simp
  have h4: "list_all (\<lambda>d. int_key (declared_total d) = Some (int (length ?ds))) ?ds" by code_simp
  have h5: "?ds \<noteq> []" by simp
  have h6: "accumulator c0 (PStr ''g1'') = []" by code_simp
  have h7: "comparable_keys ?ds" by code_simp
  have ex: "fst (feed sample_env c0 [frame_a, frame_c, frame_b]) = [Inr PNone, Inr PNone, Inr (PStr ''a b c'')]"
    by code_simp
  from complete_set_reconstructed[OF h1 h2 h3 h4 h5 h6 h7] h1 h2 h3 h4 h6 h7 ex show ?thesis by simp
qed

text \<open>
  C2. As stated the claim fails: the client keeps no declared total per group. After a first
  fragment of group \<^verbatim>\<open>g3\<close> that declares total 2, a second fragment of the group that carries
  no total key is compared against total 0: the call returns \<^verbatim>\<open>None\<close> and both fragments stay
  in the accumulator.
\<close>

theorem later_fragment_without_total_counterexample:
  "fst (feed sample_env c0 [frame_p, frame_q]) = [Inr PNone, Inr PNone]
   \<and> accumulator (snd (feed sample_env c0 [frame_p, frame_q])) (PStr ''g3'') = [frag ''g3'' 1 2 ''p'', dict_q]"
  by code_simp

text \<open>
  C2, amended. The total that the completion check (tested only when the total is positive, then
  received count \<open>\<ge>\<close> total) compares against is the value the arriving fragment itself states
  (\<^verbatim>\<open>total\<close>, else \<^verbatim>\<open>total_fragments\<close>, else \<^verbatim>\<open>count\<close>, else 0); nothing is kept
  from earlier fragments. So a fragment that carries none of the three keys has total 0, never
  completes its group whatever earlier fragments declared, and is appended to the accumulator.
\<close>

theorem completion_uses_arriving_total:
  assumes "enable_fragments c"
    and "json_loads E raw = Some (PDict d)"
    and "is_fragmented_message (PDict d) = Inr True"
    and "dict_key (fragment_id d) = Some k"
    and "int_key (declared_total d) = Some t"
  shows "fst (handle_message E c raw) =
           (if 0 < t \<and> t \<le> int (length (accumulator c k)) + 1
            then reconstruct_fragments E (accumulator c k @ [d]) else Inr PNone)
       \<and> (map_of d ''total'' = None \<and> map_of d ''total_fragments'' = None \<and> map_of d ''count'' = None
          \<longrightarrow> t = 0 \<and> fst (handle_message E c raw) = Inr PNone
             \<and> accumulator (snd (handle_message E c raw)) k = accumulator c k @ [d])"
proof -
  let ?c1 = "c\<lparr>message_buffer := message_buffer c @ [PDict d]\<rparr>"
  have hm: "handle_message E c raw = handle_fragment E ?c1 d"
    using assms(1-3) by (rule handle_message_fragment)
  have first: "fst (handle_message E c raw) =
           (if 0 < t \<and> t \<le> int (length (accumulator c k)) + 1
            then reconstruct_fragments E (accumulator c k @ [d]) else Inr PNone)"
  proof (cases "0 < t \<and> t \<le> int (length (accumulator c k)) + 1")
    case True
    then show ?thesis
      using handle_fragment_complete[OF assms(4,5), of ?c1 E] hm by (simp split: sum.splits)
  next
    case False
    then show ?thesis
      using handle_fragment_waiting[OF assms(4,5), of ?c1 E] hm by auto
  qed
  have second: "t = 0 \<and> fst (handle_message E c raw) = Inr PNone
             \<and> accumulator (snd (handle_message E c raw)) k = accumulator c k @ [d]"
    if "map_of d ''total'' = None \<and> map_of d ''total_fragments'' = None \<and> map_of d ''count'' = None"
  proof -
    from that have "declared_total d = PInt 0" by (simp add: no_total_keys)
    with assms(5) have t0: "t = 0" by simp
    then show ?thesis
      using handle_fragment_waiting[OF assms(4,5), of ?c1 E] hm by simp
  qed
  from first second show ?thesis by simp
qed

theorem completion_uses_arriving_total_witness:
  "fst (handle_message sample_env (snd (handle_message sample_env c0 frame_p)) frame_q) = Inr PNone
   \<and> accumulator (snd (handle_message sample_env (snd (handle_message sample_env c0 frame_p)) frame_q)) (PStr ''g3'')
       = accumulator (snd (handle_message sample_env c0 frame_p)) (PStr ''g3'') @ [dict_q]
   \<and> accumulator (snd (handle_message sample_env c0 frame_p)) (PStr ''g3'') = [frag ''g3'' 1 2 ''p'']"
proof -
  let ?c = "snd (handle_message sample_env c0 frame_p)"
  have h1: "enable_fragments ?c" by (simp add: handle_message_flags) code_simp
  have h2: "json_loads sample_env frame_q = Some (PDict dict_q)" by code_simp
  have h3: "is_fragmented_message (PDict dict_q) = Inr True" by code_simp
  have h4: "dict_key (fragment_id dict_q) = Some (PStr ''g3'')" by code_simp
  have h5: "int_key (declared_total dict_q) = Some 0" by code_simp
  have h6: "map_of dict_q ''total'' = None \<and> map_of dict_q ''total_fragments'' = None \<and> map_of dict_q ''count'' = None"
    by code_simp
  have h7: "accumulator ?c (PStr ''g3'') = [frag ''g3'' 1 2 ''p'']" by code_simp
  from completion_uses_arriving_total[OF h1 h2 h3 h4 h5] h6 h7 show ?thesis by simp
qed

text \<open>
  C3. Group isolation. In any sequence of frames, the results of the frames filed under group key
  \<open>k\<close> are the results the same frames give when fed alone, in the same order, to the same
  starting client, and group \<open>k\<close>'s accumulator ends the same: frames of other groups (and any
  other frame) do not change what group \<open>k\<close> produces. A frame that is not filed under \<open>k\<close>
  leaves group \<open>k\<close>'s accumulator as it was.
\<close>

theorem group_isolation:
  "map snd (filter (\<lambda>p. in_group E k (fst p)) (zip raws (fst (feed E c raws))))
     = fst (feed E c (filter (in_group E k) raws))
   \<and> fragments (snd (feed E c raws)) k = fragments (snd (feed E c (filter (in_group E k) raws))) k
   \<and> (\<not> (enable_fragments c \<and> in_group E k raw)
        \<longrightarrow> fragments (snd (handle_message E c raw)) k = fragments c k)"
  using isolation_gen[of c c k E raws] handle_message_other[of c E k raw] by simp

theorem group_isolation_witness:
  "fst (feed sample_env c0 [frame_a, frame_p, frame_c, frame_x, frame_b, frame_y])
     = [Inr PNone, Inr PNone, Inr PNone, Inr PNone, Inr (PStr ''a b c''), Inl TypeError]
   \<and> filter (in_group sample_env (PStr ''g1'')) [frame_a, frame_p, frame_c, frame_x, frame_b, frame_y]
       = [frame_a, frame_c, frame_b]
   \<and> map snd (filter (\<lambda>p. in_group sample_env (PStr ''g1'') (fst p))
        (zip [frame_a, frame_p, frame_c, frame_x, frame_b, frame_y]
             (fst (feed sample_env c0 [frame_a, frame_p, frame_c, frame_x, frame_b, frame_y]))))
       = fst (feed sample_env c0 [frame_a, frame_c, frame_b])
   \<and> fst (feed sample_env c0 [frame_a, frame_c, frame_b]) = [Inr PNone, Inr PNone, Inr (PStr ''a b c'')]
   \<and> \<not> in_group sample_env (PStr ''g1'') frame_p
   \<and> fragments (snd (handle_message sample_env c0 frame_p)) (PStr ''g1'') = fragments c0 (PStr ''g1'')"
proof -
  have e0: "\<not> in_group sample_env (PStr ''g1'') frame_p" by code_simp
  have e1: "fst (feed sample_env c0 [frame_a, frame_p, frame_c, frame_x, frame_b, frame_y])
     = [Inr PNone, Inr PNone, Inr PNone, Inr PNone, Inr (PStr ''a b c''), Inl TypeError]" by code_simp
  have e2: "filter (in_group sample_env (PStr ''g1'')) [frame_a, frame_p, frame_c, frame_x, frame_b, frame_y]
       = [frame_a, frame_c, frame_b]" by code_simp
  have e3: "fst (feed sample_env c0 [frame_a, frame_c, frame_b]) = [Inr PNone, Inr PNone, Inr (PStr ''a b c'')]"
    by code_simp
  from group_isolation[of sample_env "PStr ''g1''" "[frame_a, frame_p, frame_c, frame_x, frame_b, frame_y]" c0 frame_p]
    e0 e1 e2 e3 show ?thesis by simp
qed

text \<open>
  C4. As stated the claim fails: the list is not cleared at every detected completion. The second
  fragment of group \<^verbatim>\<open>g2\<close> declares total 2 and is the second one received, so completion is
  detected; its string \<^verbatim>\<open>timestamp\<close> cannot be compared with the first fragment's integer
  \<^verbatim>\<open>sequence\<close>, the sort raises before the line that clears, and both records stay in the
  accumulator. A later fragment with the same group key is appended to them and raises again,
  where a fresh group would have returned \<^verbatim>\<open>None\<close>.
\<close>

theorem completion_raises_not_cleared_counterexample:
  "int_key (declared_total dict_y) = Some 2
   \<and> length (accumulator (snd (handle_message sample_env c0 frame_x)) (PStr ''g2'')) + 1 = 2
   \<and> fst (feed sample_env c0 [frame_x, frame_y]) = [Inr PNone, Inl TypeError]
   \<and> fragments (snd (feed sample_env c0 [frame_x, frame_y])) (PStr ''g2'')
       = Some [frag ''g2'' 1 2 ''x'', dict_y]
   \<and> fst (handle_message sample_env c0 frame_x) = Inr PNone
   \<and> fst (handle_message sample_env (snd (feed sample_env c0 [frame_x, frame_y])) frame_x) = Inl TypeError
   \<and> accumulator (snd (handle_message sample_env (snd (feed sample_env c0 [frame_x, frame_y])) frame_x)) (PStr ''g2'')
       = [frag ''g2'' 1 2 ''x'', dict_y, frag ''g2'' 1 2 ''x'']"
  by code_simp

text \<open>
  C4, amended. When an arriving fragment completes its group (its total is positive and at most
  the number of fragments received) and the sequence keys of the accumulated fragments can be
  ordered (at most one fragment, or all integers, or all strings), the returned message is the
  extracted contents, joined by single spaces, of a rearrangement of exactly the accumulated
  fragments, each taken once, and the same call leaves the group's accumulator empty. From then on
  the client gives, for every later sequence of frames, the results of a client in which the group
  key was never seen, and ends with the same accumulators, buffer and flags.
\<close>

theorem completion_clears_group:
  assumes "enable_fragments c"
    and "json_loads E raw = Some (PDict d)"
    and "is_fragmented_message (PDict d) = Inr True"
    and "dict_key (fragment_id d) = Some k"
    and "int_key (declared_total d) = Some t"
    and "0 < t" and "t \<le> int (length (accumulator c k)) + 1"
    and "comparable_keys (accumulator c k @ [d])"
    and "c' = snd (handle_message E c raw)"
  shows "(\<exists>ss. mset ss = mset (accumulator c k @ [d])
            \<and> fst (handle_message E c raw) = Inr (PStr (join '' '' (map (\<lambda>f. py_str (fragment_text f)) ss))))
       \<and> fragments c' k = Some []
       \<and> fst (feed E c' later) = fst (feed E (c'\<lparr>fragments := (fragments c')(k := None)\<rparr>) later)
       \<and> same_groups (snd (feed E c' later)) (snd (feed E (c'\<lparr>fragments := (fragments c')(k := None)\<rparr>) later))"
proof -
  let ?c1 = "c\<lparr>message_buffer := message_buffer c @ [PDict d]\<rparr>"
  let ?frags = "accumulator c k @ [d]"
  have hm: "handle_message E c raw = handle_fragment E ?c1 d"
    using assms(1-3) by (rule handle_message_fragment)
  from sorted_comparable[OF assms(8), of E] obtain ss where
    ss: "py_sorted E sequence_key ?frags = Inr ss" "mset ss = mset ?frags" by blast
  from ss(2) have "ss \<noteq> []" by auto
  from reconstruct_sorted[OF ss(1) this]
  have rec: "reconstruct_fragments E ?frags = Inr (PStr (join '' '' (map (\<lambda>f. py_str (fragment_text f)) ss)))" .
  have step: "handle_message E c raw =
      (Inr (PStr (join '' '' (map (\<lambda>f. py_str (fragment_text f)) ss))), ?c1\<lparr>fragments := (fragments ?c1)(k \<mapsto> [])\<rparr>)"
    using handle_fragment_complete[OF assms(4,5,6), of ?c1 E] assms(7) hm rec by simp
  have cleared: "fragments c' k = Some []" using step assms(9) by simp
  from feed_same[OF same_groups_forget[OF cleared], of E later] step ss(2) cleared
  show ?thesis by auto
qed

theorem completion_clears_group_witness:
  "fst (handle_message sample_env (snd (feed sample_env c0 [frame_a, frame_c])) frame_b) = Inr (PStr ''a b c'')
   \<and> comparable_keys (accumulator (snd (feed sample_env c0 [frame_a, frame_c])) (PStr ''g1'') @ [frag ''g1'' 2 3 ''b''])
   \<and> fragments (snd (handle_message sample_env (snd (feed sample_env c0 [frame_a, frame_c])) frame_b)) (PStr ''g1'') = Some []
   \<and> fst (feed sample_env (snd (handle_message sample_env (snd (feed sample_env c0 [frame_a, frame_c])) frame_b)) [frame_a, frame_c, frame_b])
       = fst (feed sample_env c0 [frame_a, frame_c, frame_b])"
proof -
  let ?c = "snd (feed sample_env c0 [frame_a, frame_c])"
  let ?d = "frag ''g1'' 2 3 ''b''"
  let ?c' = "snd (handle_message sample_env ?c frame_b)"
  have h1: "enable_fragments ?c" by (simp add: feed_flags) code_simp
  have h2: "json_loads sample_env frame_b = Some (PDict ?d)" by code_simp
  have h3: "is_fragmented_message (PDict ?d) = Inr True" by code_simp
  have h4: "dict_key (fragment_id ?d) = Some (PStr ''g1'')" by code_simp
  have h5: "int_key (declared_total ?d) = Some 3" by code_simp
  have h6: "(0::int) < 3" by simp
  have acc: "accumulator ?c (PStr ''g1'') = [frag ''g1'' 1 3 ''a'', frag ''g1'' 3 3 ''c'']" by code_simp
  have h7: "(3::int) \<le> int (length (accumulator ?c (PStr ''g1''))) + 1" unfolding acc by simp
  have h8: "comparable_keys (accumulator ?c (PStr ''g1'') @ [?d])" unfolding acc by code_simp
  have e1: "fst (handle_message sample_env ?c frame_b) = Inr (PStr ''a b c'')" by code_simp
  have e2: "fst (feed sample_env (?c'\<lparr>fragments := (fragments ?c')(PStr ''g1'' := None)\<rparr>) [frame_a, frame_c, frame_b])
      = fst (feed sample_env c0 [frame_a, frame_c, frame_b])" by code_simp
  from completion_clears_group[OF h1 h2 h3 h4 h5 h6 h7 h8 refl, of "[frame_a, frame_c, frame_b]"] h8 e1 e2
  show ?thesis by simp
qed

text \<open>
  C5. While the number of fragments ingested into a group stays strictly below the total each
  arriving fragment declares, \<open>handle_message\<close> returns \<^verbatim>\<open>None\<close> for every one of them, and
  the group's accumulator holds exactly the fragments ingested so far, so its length is their
  number. (Reconstruction enabled, a hashable group key, integer totals, a group that starts empty.)
\<close>

theorem waiting_below_total:
  assumes "enable_fragments c"
    and "map (json_loads E) raws = map (\<lambda>d. Some (PDict d)) ds"
    and "list_all (\<lambda>d. dict_key (fragment_id d) = Some k) ds"
    and "accumulator c k = []"
    and "waiting_from 0 ds"
  shows "fst (feed E c raws) = replicate (length ds) (Inr PNone)
       \<and> accumulator (snd (feed E c raws)) k = ds
       \<and> length (accumulator (snd (feed E c raws)) k) = length raws"
proof -
  have "length raws = length ds" using assms(2) by (metis length_map)
  then show ?thesis using feed_waiting[OF assms(1,2,3)] assms(4,5) by simp
qed

theorem waiting_below_total_witness:
  "enable_fragments c0
   \<and> map (json_loads sample_env) [frame_a, frame_c] = map (\<lambda>d. Some (PDict d)) [frag ''g1'' 1 3 ''a'', frag ''g1'' 3 3 ''c'']
   \<and> list_all (\<lambda>d. dict_key (fragment_id d) = Some (PStr ''g1'')) [frag ''g1'' 1 3 ''a'', frag ''g1'' 3 3 ''c'']
   \<and> accumulator c0 (PStr ''g1'') = []
   \<and> waiting_from 0 [frag ''g1'' 1 3 ''a'', frag ''g1'' 3 3 ''c'']
   \<and> fst (feed sample_env c0 [frame_a, frame_c]) = [Inr PNone, Inr PNone]
   \<and> accumulator (snd (feed sample_env c0 [frame_a, frame_c])) (PStr ''g1'') = [frag ''g1'' 1 3 ''a'', frag ''g1'' 3 3 ''c'']"
proof -
  have h1: "enable_fragments c0" by code_simp
  have h2: "map (json_loads sample_env) [frame_a, frame_c] = map (\<lambda>d. Some (PDict d)) [frag ''g1'' 1 3 ''a'', frag ''g1'' 3 3 ''c'']"
    by code_simp
  have h3: "list_all (\<lambda>d. dict_key (fragment_id d) = Some (PStr ''g1'')) [frag ''g1'' 1 3 ''a'', frag ''g1'' 3 3 ''c'']"
    by code_simp
  have h4: "accumulator c0 (PStr ''g1'') = []" by code_simp
  have h5: "waiting_from 0 [frag ''g1'' 1 3 ''a'', frag ''g1'' 3 3 ''c'']" by code_simp
  from waiting_below_total[OF h1 h2 h3 h4 h5] h1 h2 h3 h4 h5 show ?thesis by simp
qed

text \<open>
  C6. As stated the claim fails for a frame that is valid JSON but not a mapping: the frame
  \<^verbatim>\<open>[1,2]\<close> decodes to a list, and the call returns the list's string form
  \<^verbatim>\<open>[1, 2]\<close>, not the frame.
\<close>

theorem json_array_not_returned_raw_counterexample:
  "json_loads sample_env ''[1,2]'' = Some (PList [PInt 1, PInt 2])
   \<and> fst (handle_message sample_env c0 ''[1,2]'') = Inr (PStr ''[1, 2]'')
   \<and> fst (handle_message sample_env c0 ''[1,2]'') \<noteq> Inr (PStr ''[1,2]'')"
  by code_simp

text \<open>
  C6, amended. A frame on which \<^verbatim>\<open>json.loads\<close> raises \<^verbatim>\<open>JSONDecodeError\<close> is returned
  unchanged and the client is left as it was. A frame that decodes to a value that is not a mapping
  is not returned as received: when reconstruction is disabled, or \<open>is_fragmented_message\<close>
  answers \<^verbatim>\<open>False\<close> on the value, the call returns \<^verbatim>\<open>str\<close> of the decoded value and
  appends the value to the message buffer.
\<close>

theorem undecodable_frame_returned_raw:
  "(json_loads E raw = None \<longrightarrow> handle_message E c raw = (Inr (PStr raw), c))
   \<and> (json_loads E raw = Some v \<and> \<not> is_dict v \<and> (enable_fragments c \<longrightarrow> is_fragmented_message v = Inr False)
        \<longrightarrow> handle_message E c raw = (Inr (PStr (py_str v)), c\<lparr>message_buffer := message_buffer c @ [v]\<rparr>))"
  by (cases v) (simp_all add: handle_message_def message_content_def)

theorem undecodable_frame_returned_raw_witness:
  "json_loads sample_env ''hello'' = None
   \<and> handle_message sample_env c0 ''hello'' = (Inr (PStr ''hello''), c0)
   \<and> json_loads sample_env ''[1,2]'' = Some (PList [PInt 1, PInt 2])
   \<and> is_fragmented_message (PList [PInt 1, PInt 2]) = Inr False
   \<and> handle_message sample_env c0 ''[1,2]''
       = (Inr (PStr ''[1, 2]''), c0\<lparr>message_buffer := message_buffer c0 @ [PList [PInt 1, PInt 2]]\<rparr>)"
proof -
  have h1: "json_loads sample_env ''hello'' = None" by code_simp
  have h2: "json_loads sample_env ''[1,2]'' = Some (PList [PInt 1, PInt 2])" by code_simp
  have h3: "is_fragmented_message (PList [PInt 1, PInt 2]) = Inr False" by code_simp
  have h4: "py_str (PList [PInt 1, PInt 2]) = ''[1, 2]''" by code_simp
  from undecodable_frame_returned_raw[of sample_env "''hello''" c0 PNone]
    undecodable_frame_returned_raw[of sample_env "''[1,2]''" c0 "PList [PInt 1, PInt 2]"]
    h1 h2 h3 h4 show ?thesis by simp
qed

text \<open>
  C7. The claim does not hold of the code at the backend text \<^verbatim>\<open>42\<close>, which contains no
  brace and parses to a number, not to a structured record: the full parse of step (a) is returned
  without the dictionary test that the two later steps make, so \<open>extract_json_from_text\<close> gives
  42, \<open>process_message\<close> returns it, and the session loop sends it as the reply.
\<close>

theorem bare_number_reply_accepted:
  "query_llm sample_env (PStr ''hello'') = Some ''42''
   \<and> findall flat_len ''42'' = [] \<and> findall nested_len ''42'' = []
   \<and> extract_json_from_text sample_env ''42'' = PInt 42
   \<and> process_message sample_env (PStr ''hello'') = PInt 42
   \<and> fst (run sample_env c0 [] [''hello'']) = [PInt 42]"
  by code_simp

text \<open>
  C8. The premise of the claim never holds. The extraction of lines 62 to 66 ends in the record's
  string form, which is not empty, so the content extracted from a fragment is always true and
  non-empty, every fragment contributes a text, and the branch that returns \<^verbatim>\<open>None\<close> for a
  non-empty list is never taken. The implication of the claim is therefore true of no completed
  group and false of none.
\<close>

lemma extracted_content_never_empty:
  "truthy (fragment_text f) \<and> py_str (fragment_text f) \<noteq> []
   \<and> collect_texts fs = map (\<lambda>f. py_str (fragment_text f)) fs"
  by (simp add: truthy_fragment_text fragment_text_nonempty collect_texts_all)

text \<open>
  C9. A call of \<open>handle_message\<close> appends the decoded value to \<open>message_buffer\<close> when the
  frame parses as JSON and leaves the buffer as it was otherwise; nothing is ever removed. After
  any sequence of calls the buffer is the starting buffer followed by the decoded values of the
  parseable frames in arrival order, so its length grows by their number, and the records of a
  group stay in it after the group has completed and its accumulator has been emptied.
\<close>

theorem message_buffer_grows:
  "message_buffer (snd (handle_message E c raw)) =
     message_buffer c @ (case json_loads E raw of None \<Rightarrow> [] | Some data \<Rightarrow> [data])
   \<and> message_buffer (snd (feed E c raws)) = message_buffer c @ List.map_filter (json_loads E) raws
   \<and> length (message_buffer (snd (feed E c raws)))
       = length (message_buffer c) + length (filter (\<lambda>raw. json_loads E raw \<noteq> None) raws)"
  by (simp add: handle_message_buffer feed_buffer length_map_filter)

theorem message_buffer_grows_witness:
  "message_buffer (snd (feed sample_env c0 [frame_a, ''hello'', frame_c, frame_b, ''[1,2]'']))
     = [PDict (frag ''g1'' 1 3 ''a''), PDict (frag ''g1'' 3 3 ''c''), PDict (frag ''g1'' 2 3 ''b''),
        PList [PInt 1, PInt 2]]
   \<and> accumulator (snd (feed sample_env c0 [frame_a, ''hello'', frame_c, frame_b, ''[1,2]''])) (PStr ''g1'') = []"
proof -
  have e1: "message_buffer c0 = []" by code_simp
  have e2: "List.map_filter (json_loads sample_env) [frame_a, ''hello'', frame_c, frame_b, ''[1,2]'']
     = [PDict (frag ''g1'' 1 3 ''a''), PDict (frag ''g1'' 3 3 ''c''), PDict (frag ''g1'' 2 3 ''b''),
        PList [PInt 1, PInt 2]]" by code_simp
  have e3: "accumulator (snd (feed sample_env c0 [frame_a, ''hello'', frame_c, frame_b, ''[1,2]''])) (PStr ''g1'') = []"
    by code_simp
  from message_buffer_grows[of sample_env c0 "''hello''" "[frame_a, ''hello'', frame_c, frame_b, ''[1,2]'']"]
    e1 e2 e3 show ?thesis by simp
qed

text \<open>
  C10. When the arriving fragment completes a group of two fragments or more whose sequence keys
  cannot be compared (neither all integers, nor all strings, nor all lists: for instance an
  integer \<^verbatim>\<open>sequence\<close> and a string \<^verbatim>\<open>timestamp\<close>), \<open>reconstruct_fragments\<close> raises
  \<^verbatim>\<open>TypeError\<close> in the sort, \<open>handle_message\<close> raises it too and leaves the group
  accumulated, and the session loop ends with the exception: no reply is sent for this frame and no
  later frame is read.
\<close>

theorem incomparable_keys_abort:
  assumes "enable_fragments c"
    and "json_loads E raw = Some (PDict d)"
    and "is_fragmented_message (PDict d) = Inr True"
    and "dict_key (fragment_id d) = Some k"
    and "int_key (declared_total d) = Some t"
    and "0 < t" and "t \<le> int (length (accumulator c k)) + 1"
    and "incomparable_keys (accumulator c k @ [d])"
  shows "reconstruct_fragments E (accumulator c k @ [d]) = Inl TypeError
       \<and> fst (handle_message E c raw) = Inl TypeError
       \<and> accumulator (snd (handle_message E c raw)) k = accumulator c k @ [d]
       \<and> run E c inputs (raw # frames) = ([], Aborted, snd (handle_message E c raw))"
proof -
  let ?c1 = "c\<lparr>message_buffer := message_buffer c @ [PDict d]\<rparr>"
  have hm: "handle_message E c raw = handle_fragment E ?c1 d"
    using assms(1-3) by (rule handle_message_fragment)
  have rec: "reconstruct_fragments E (accumulator c k @ [d]) = Inl TypeError"
    using sorted_incomparable[OF assms(8), of E] by (simp add: reconstruct_fragments_def)
  have step: "handle_message E c raw = (Inl TypeError, ?c1\<lparr>fragments := (fragments ?c1)(k \<mapsto> accumulator c k @ [d])\<rparr>)"
    using handle_fragment_complete[OF assms(4,5,6), of ?c1 E] assms(7) hm rec by simp
  then show ?thesis using rec by simp
qed

theorem incomparable_keys_abort_witness:
  "accumulator (snd (handle_message sample_env c0 frame_x)) (PStr ''g2'') = [frag ''g2'' 1 2 ''x'']
   \<and> sequence_key (frag ''g2'' 1 2 ''x'') = PInt 1 \<and> sequence_key dict_y = PStr ''t2''
   \<and> incomparable_keys [frag ''g2'' 1 2 ''x'', dict_y]
   \<and> fst (handle_message sample_env (snd (handle_message sample_env c0 frame_x)) frame_y) = Inl TypeError
   \<and> accumulator (snd (handle_message sample_env (snd (handle_message sample_env c0 frame_x)) frame_y)) (PStr ''g2'')
       = [frag ''g2'' 1 2 ''x'', dict_y]
   \<and> fst (snd (run sample_env (snd (handle_message sample_env c0 frame_x)) [] [frame_y, frame_a, frame_c, frame_b])) = Aborted
   \<and> fst (run sample_env (snd (handle_message sample_env c0 frame_x)) [] [frame_y, frame_a, frame_c, frame_b]) = []"
proof -
  let ?c = "snd (handle_message sample_env c0 frame_x)"
  have h1: "enable_fragments ?c" by (simp add: handle_message_flags) code_simp
  have h2: "json_loads sample_env frame_y = Some (PDict dict_y)" by code_simp
  have h3: "is_fragmented_message (PDict dict_y) = Inr True" by code_simp
  have h4: "dict_key (fragment_id dict_y) = Some (PStr ''g2'')" by code_simp
  have h5: "int_key (declared_total dict_y) = Some 2" by code_simp
  have h6: "(0::int) < 2" by simp
  have acc: "accumulator ?c (PStr ''g2'') = [frag ''g2'' 1 2 ''x'']" by code_simp
  have h7: "(2::int) \<le> int (length (accumulator ?c (PStr ''g2''))) + 1" unfolding acc by simp
  have inc: "incomparable_keys [frag ''g2'' 1 2 ''x'', dict_y]" by code_simp
  then have h8: "incomparable_keys (accumulator ?c (PStr ''g2'') @ [dict_y])" unfolding acc by simp
  have k1: "sequence_key (frag ''g2'' 1 2 ''x'') = PInt 1" by code_simp
  have k2: "sequence_key dict_y = PStr ''t2''" by code_simp
  from incomparable_keys_abort[OF h1 h2 h3 h4 h5 h6 h7 h8, of "[]" "[frame_a, frame_c, frame_b]"] acc inc k1 k2
  show ?thesis by simp
qed

end
